theory Spec2Isabelle
  imports Main "HOL-Library.Sublist"
begin

section \<open>The notes and folders storage hook (src/hooks/use-note-storage.tsx)\<close>

text \<open>
  The hook \<^verbatim>\<open>useNoteStorage\<close> owns two collections (notes, folders), mirrors them to
  two local-storage entries and exposes the operations \<^verbatim>\<open>saveNote\<close>, \<^verbatim>\<open>deleteNote\<close>,
  \<^verbatim>\<open>createFolder\<close>, \<^verbatim>\<open>deleteFolder\<close>, \<^verbatim>\<open>getNotesInFolder\<close>, \<^verbatim>\<open>searchNotes\<close> and
  \<^verbatim>\<open>categorizeNote\<close>. The model passes the hook's state explicitly and takes every clock
  reading (\<^verbatim>\<open>new Date()\<close>, \<^verbatim>\<open>Date.now()\<close>) as an argument.
\<close>

subsection \<open>Strings and the string methods the hook calls\<close>

text \<open>
  A string is a list of code units below 256 (the Latin-1 part of a JavaScript string).
  On that range \<^verbatim>\<open>\s\<close> and \<^verbatim>\<open>trim\<close> recognise TAB, LF, VT, FF, CR, SPACE and
  NO-BREAK SPACE, and \<^verbatim>\<open>toLowerCase\<close> adds 32 to A..Z and to the accented capitals
  0xC0..0xDE other than the multiplication sign 0xD7.
\<close>

definition is_ws :: "char \<Rightarrow> bool" where
  "is_ws c = (c \<in> {CHR 0x09, CHR 0x0A, CHR 0x0B, CHR 0x0C, CHR 0x0D, CHR 0x20, CHR 0xA0})"

definition trim :: "string \<Rightarrow> string" where
  "trim s = rev (dropWhile is_ws (rev (dropWhile is_ws s)))"

definition toLowerCase_char :: "char \<Rightarrow> char" where
  "toLowerCase_char c =
     (let n = (of_char c :: nat)
      in if (65 \<le> n \<and> n \<le> 90) \<or> (192 \<le> n \<and> n \<le> 222 \<and> n \<noteq> 215)
         then char_of (n + 32) else c)"

definition toLowerCase :: "string \<Rightarrow> string" where
  "toLowerCase s = map toLowerCase_char s"

text \<open>\<^verbatim>\<open>haystack.includes(needle)\<close>: the needle starts at some position of the haystack.\<close>

fun includes_str :: "string \<Rightarrow> string \<Rightarrow> bool" where
  "includes_str [] needle = (needle = [])"
| "includes_str (c # cs) needle = (prefix needle (c # cs) \<or> includes_str cs needle)"

text \<open>
  \<^verbatim>\<open>s.split(/\s+/)\<close>: the pieces between the maximal runs of whitespace. A leading or a
  trailing run leaves an empty piece at that end, and the empty string gives one empty piece.
\<close>

function split_ws :: "string \<Rightarrow> string list" where
  "split_ws s =
     (let word = takeWhile (\<lambda>c. \<not> is_ws c) s;
          rest = dropWhile (\<lambda>c. \<not> is_ws c) s
      in if rest = [] then [word] else word # split_ws (dropWhile is_ws rest))"
  by pat_completeness auto
termination
proof (relation "measure length")
  show "wf (measure length)" by simp
next
  fix s :: string and word rest
  assume r: "rest = dropWhile (\<lambda>c. \<not> is_ws c) s" and ne: "rest \<noteq> []"
  from ne obtain x xs where c: "rest = x # xs"
    by (cases rest) auto
  from ne r have "is_ws (hd rest)"
    using hd_dropWhile [of "\<lambda>c. \<not> is_ws c" s] by simp
  with c have "dropWhile is_ws rest = dropWhile is_ws xs"
    by simp
  moreover have "length (dropWhile is_ws xs) \<le> length xs"
    by (rule length_dropWhile_le)
  ultimately have "length (dropWhile is_ws rest) < length rest"
    using c by simp
  moreover have "length rest \<le> length s"
    unfolding r by (rule length_dropWhile_le)
  ultimately show "(dropWhile is_ws rest, s) \<in> measure length" by simp
qed

declare split_ws.simps [simp del]

text \<open>
  The word count of both branches of \<^verbatim>\<open>saveNote\<close>:
  \<^verbatim>\<open>(noteData.content || "").split(/\s+/).filter(word => word.length > 0).length\<close>,
  here on the string already defaulted.
\<close>

definition countWords :: "string \<Rightarrow> nat" where
  "countWords body = length (filter (\<lambda>word. length word > 0) (split_ws body))"

text \<open>
  \<^verbatim>\<open>Date.now().toString()\<close>: the decimal numeral of an integer number of milliseconds.
  A clock reading stays far below the magnitude at which JavaScript switches to exponent
  notation.
\<close>

fun digits :: "nat \<Rightarrow> string" where
  "digits n =
     (if n < 10 then [char_of (48 + n)]
      else digits (n div 10) @ [char_of (48 + n mod 10)])"

declare digits.simps [simp del]

definition toString :: "int \<Rightarrow> string" where
  "toString i = (if i < 0 then CHR ''-'' # digits (nat (- i)) else digits (nat i))"

text \<open>
  Truthiness of an optional string (\<^verbatim>\<open>!v\<close>, \<^verbatim>\<open>v || d\<close>): \<^verbatim>\<open>undefined\<close> and the
  empty string are falsy.
\<close>

definition truthy :: "string option \<Rightarrow> bool" where
  "truthy v = (case v of None \<Rightarrow> False | Some s \<Rightarrow> s \<noteq> [])"

definition or_else :: "string option \<Rightarrow> string \<Rightarrow> string" where
  "or_else v d = (case v of None \<Rightarrow> d | Some s \<Rightarrow> if s = [] then d else s)"

subsection \<open>Notes, folders and the hook's state\<close>

text \<open>A \<^verbatim>\<open>Date\<close> is its number of milliseconds since the epoch.\<close>

type_synonym date = int

text \<open>
  A note object as it exists at run time. \<^verbatim>\<open>saveNote\<close> takes a \<^verbatim>\<open>Partial<Note>\<close> and
  its update branch stores that object under a cast to \<^verbatim>\<open>Note\<close>, so every property can be
  absent (\<open>None\<close>) in an argument and in the collection alike. The field \<open>note_id\<close> is the
  property \<^verbatim>\<open>id\<close>. The number a caller passes as \<^verbatim>\<open>wordCount\<close> is overwritten by both
  branches of \<^verbatim>\<open>saveNote\<close>.
\<close>

record Note =
  note_id :: "string option"
  title :: "string option"
  content :: "string option"
  tags :: "string list option"
  folder :: "string option"
  createdAt :: "date option"
  updatedAt :: "date option"
  wordCount :: "nat option"
  summary :: "string option"
  actionItems :: "string list option"

text \<open>
  The properties that the interface \<^verbatim>\<open>Note\<close> requires and \<^verbatim>\<open>searchNotes\<close> dereferences.
\<close>

definition searchable :: "Note \<Rightarrow> bool" where
  "searchable n = (title n \<noteq> None \<and> content n \<noteq> None \<and> tags n \<noteq> None)"

text \<open>
  The fields \<open>folder_id\<close> and \<open>folder_createdAt\<close> are the properties \<^verbatim>\<open>id\<close> and
  \<^verbatim>\<open>createdAt\<close> of the interface \<^verbatim>\<open>Folder\<close>.
\<close>

record Folder =
  folder_id :: string
  name :: string
  color :: string
  icon :: string
  folder_createdAt :: date

text \<open>
  The constant \<^verbatim>\<open>DEFAULT_FOLDERS\<close>; its \<^verbatim>\<open>createdAt\<close> values are read from the clock
  when the module is evaluated, at \<open>t0\<close>.
\<close>

definition DEFAULT_FOLDERS :: "date \<Rightarrow> Folder list" where
  "DEFAULT_FOLDERS t0 =
     [\<lparr>folder_id = ''all'', name = ''All Notes'', color = ''blue'', icon = ''FileText'',
        folder_createdAt = t0\<rparr>,
      \<lparr>folder_id = ''quick-notes'', name = ''Quick Notes'', color = ''green'', icon = ''Zap'',
        folder_createdAt = t0\<rparr>,
      \<lparr>folder_id = ''meetings'', name = ''Meetings'', color = ''purple'', icon = ''Users'',
        folder_createdAt = t0\<rparr>,
      \<lparr>folder_id = ''ideas'', name = ''Ideas'', color = ''yellow'', icon = ''Lightbulb'',
        folder_createdAt = t0\<rparr>,
      \<lparr>folder_id = ''tasks'', name = ''Tasks'', color = ''red'', icon = ''CheckSquare'',
        folder_createdAt = t0\<rparr>]"

text \<open>
  The hook's state: the React state variables \<^verbatim>\<open>notes\<close>, \<^verbatim>\<open>folders\<close>, \<^verbatim>\<open>isLoading\<close> and
  the local-storage entries \<^verbatim>\<open>ai-notes-notes\<close> and \<^verbatim>\<open>ai-notes-folders\<close>. An entry holds
  the collection that its JSON text encodes, \<open>None\<close> while the key is not set.
\<close>

record storage =
  "notes" :: "Note list"
  folders :: "Folder list"
  isLoading :: bool
  stored_notes :: "Note list option"
  stored_folders :: "Folder list option"

subsection \<open>The operations\<close>

text \<open>
  \<^verbatim>\<open>saveNote(noteData)\<close>, with \<open>now\<close> the value of \<^verbatim>\<open>new Date()\<close> on entry and \<open>dateNow\<close>
  that of \<^verbatim>\<open>Date.now()\<close> in the creating branch. It returns the note and calls
  \<^verbatim>\<open>setNotes\<close>.
\<close>

definition saveNote :: "date \<Rightarrow> int \<Rightarrow> Note \<Rightarrow> storage \<Rightarrow> Note \<times> storage" where
  "saveNote now dateNow noteData s =
     (if \<not> truthy (note_id noteData) then
        let newNote =
              \<lparr>note_id = Some (toString dateNow),
               title = Some (or_else (title noteData) ''Untitled''),
               content = Some (or_else (content noteData) []),
               tags = Some (case tags noteData of None \<Rightarrow> [] | Some ts \<Rightarrow> ts),
               folder = Some (or_else (folder noteData) ''quick-notes''),
               createdAt = Some now,
               updatedAt = Some now,
               wordCount = Some (countWords (or_else (content noteData) [])),
               summary = summary noteData,
               actionItems = actionItems noteData\<rparr>
        in (newNote, s\<lparr>notes := newNote # notes s\<rparr>)
      else
        let updatedNote =
              noteData\<lparr>updatedAt := Some now,
                       wordCount := Some (countWords (or_else (content noteData) []))\<rparr>
        in (updatedNote,
            s\<lparr>notes := map (\<lambda>note. if note_id note = note_id noteData then updatedNote else note)
                           (notes s)\<rparr>))"

definition deleteNote :: "string \<Rightarrow> storage \<Rightarrow> storage" where
  "deleteNote noteId s = s\<lparr>notes := filter (\<lambda>note. note_id note \<noteq> Some noteId) (notes s)\<rparr>"

text \<open>
  \<^verbatim>\<open>createFolder(name, color = "blue", icon = "Folder")\<close>: a default parameter applies when
  the argument is \<^verbatim>\<open>undefined\<close>.
\<close>

definition createFolder ::
    "int \<Rightarrow> date \<Rightarrow> string \<Rightarrow> string option \<Rightarrow> string option \<Rightarrow> storage \<Rightarrow> Folder \<times> storage" where
  "createFolder dateNow now nm col ic s =
     (let newFolder =
            \<lparr>folder_id = toString dateNow,
             name = nm,
             color = (case col of None \<Rightarrow> ''blue'' | Some c \<Rightarrow> c),
             icon = (case ic of None \<Rightarrow> ''Folder'' | Some i \<Rightarrow> i),
             folder_createdAt = now\<rparr>
      in (newFolder, s\<lparr>folders := folders s @ [newFolder]\<rparr>))"

definition isDefaultFolder :: "date \<Rightarrow> string \<Rightarrow> bool" where
  "isDefaultFolder t0 folderId = list_ex (\<lambda>f. folder_id f = folderId) (DEFAULT_FOLDERS t0)"

definition deleteFolder :: "date \<Rightarrow> string \<Rightarrow> storage \<Rightarrow> storage" where
  "deleteFolder t0 folderId s =
     (if isDefaultFolder t0 folderId then s
      else
        s\<lparr>notes := map (\<lambda>note. if folder note = Some folderId
                                then note\<lparr>folder := Some ''quick-notes''\<rparr> else note)
                       (notes s),
          folders := filter (\<lambda>f. folder_id f \<noteq> folderId) (folders s)\<rparr>)"

definition getNotesInFolder :: "storage \<Rightarrow> string \<Rightarrow> Note list" where
  "getNotesInFolder s folderId =
     (if folderId = ''all'' then notes s
      else filter (\<lambda>note. folder note = Some folderId) (notes s))"

text \<open>
  \<^verbatim>\<open>searchNotes\<close> calls \<^verbatim>\<open>toLowerCase\<close> on the title, then on the content, then on
  every tag, and guards only the summary. A call on a property that is absent throws a
  TypeError; \<^verbatim>\<open>||\<close> evaluates no further than the first disjunct that holds.
\<close>

datatype error = TypeError

definition matches :: "string \<Rightarrow> Note \<Rightarrow> error + bool" where
  "matches searchTerm note =
     (case title note of
        None \<Rightarrow> Inl TypeError
      | Some t \<Rightarrow>
          if includes_str (toLowerCase t) searchTerm then Inr True
          else
            (case content note of
               None \<Rightarrow> Inl TypeError
             | Some c \<Rightarrow>
                 if includes_str (toLowerCase c) searchTerm then Inr True
                 else
                   (case tags note of
                      None \<Rightarrow> Inl TypeError
                    | Some ts \<Rightarrow>
                        if list_ex (\<lambda>tag. includes_str (toLowerCase tag) searchTerm) ts
                        then Inr True
                        else
                          (case summary note of
                             None \<Rightarrow> Inr False
                           | Some sm \<Rightarrow>
                               Inr (sm \<noteq> [] \<and> includes_str (toLowerCase sm) searchTerm)))))"

text \<open>\<^verbatim>\<open>Array.prototype.filter\<close> with a callback that may throw.\<close>

fun filter_throwing :: "('a \<Rightarrow> error + bool) \<Rightarrow> 'a list \<Rightarrow> error + 'a list" where
  "filter_throwing p [] = Inr []"
| "filter_throwing p (x # xs) =
     (case p x of
        Inl e \<Rightarrow> Inl e
      | Inr keep \<Rightarrow>
          (case filter_throwing p xs of
             Inl e \<Rightarrow> Inl e
           | Inr r \<Rightarrow> Inr (if keep then x # r else r)))"

definition searchNotes :: "storage \<Rightarrow> string \<Rightarrow> error + Note list" where
  "searchNotes s query =
     (if trim query = [] then Inr (notes s)
      else filter_throwing (matches (toLowerCase query)) (notes s))"

definition categorizeNote :: "string \<Rightarrow> string" where
  "categorizeNote body =
     (let text = toLowerCase body
      in if includes_str text ''meeting'' \<or> includes_str text ''agenda''
            \<or> includes_str text ''discussed'' then ''meetings''
         else if includes_str text ''idea'' \<or> includes_str text ''brainstorm''
            \<or> includes_str text ''concept'' then ''ideas''
         else if includes_str text ''todo'' \<or> includes_str text ''task''
            \<or> includes_str text ''action item'' then ''tasks''
         else ''quick-notes'')"

subsection \<open>The effects that mirror the collections\<close>

text \<open>
  The two \<^verbatim>\<open>useEffect\<close> hooks that write to local storage. The first depends on
  \<^verbatim>\<open>[notes, isLoading]\<close>, the second on \<^verbatim>\<open>[folders, isLoading]\<close>.
\<close>

definition notes_effect :: "storage \<Rightarrow> storage" where
  "notes_effect s =
     (if \<not> isLoading s \<and> length (notes s) > 0 then s\<lparr>stored_notes := Some (notes s)\<rparr> else s)"

definition folders_effect :: "storage \<Rightarrow> storage" where
  "folders_effect s =
     (if \<not> isLoading s then s\<lparr>stored_folders := Some (folders s)\<rparr> else s)"

text \<open>
  One call of an operation from an event handler, followed by the render it causes. An
  operation that calls \<^verbatim>\<open>setNotes\<close> passes a new array, so the notes effect runs after it;
  likewise for \<^verbatim>\<open>setFolders\<close>. \<^verbatim>\<open>deleteFolder\<close> on a default folder returns before any
  setter, and the three reading operations call none.
\<close>

datatype call =
    SaveNote date int Note
  | DeleteNote string
  | CreateFolder int date string "string option" "string option"
  | DeleteFolder string
  | GetNotesInFolder string
  | SearchNotes string
  | CategorizeNote string

fun exec :: "date \<Rightarrow> call \<Rightarrow> storage \<Rightarrow> storage" where
  "exec t0 (SaveNote now dateNow noteData) s = notes_effect (snd (saveNote now dateNow noteData s))"
| "exec t0 (DeleteNote noteId) s = notes_effect (deleteNote noteId s)"
| "exec t0 (CreateFolder dateNow now nm col ic) s =
     folders_effect (snd (createFolder dateNow now nm col ic s))"
| "exec t0 (DeleteFolder folderId) s =
     (if isDefaultFolder t0 folderId then s
      else folders_effect (notes_effect (deleteFolder t0 folderId s)))"
| "exec t0 (GetNotesInFolder folderId) s = s"
| "exec t0 (SearchNotes query) s = s"
| "exec t0 (CategorizeNote body) s = s"

fun run :: "date \<Rightarrow> call list \<Rightarrow> storage \<Rightarrow> storage" where
  "run t0 [] s = s"
| "run t0 (c # cs) s = run t0 cs (exec t0 c s)"

subsection \<open>Notions used to state the properties\<close>

text \<open>
  Substring containment is \<^const>\<open>sublist\<close>: \<open>sublist xs ys\<close> holds when \<open>ys = ps @ xs @ ss\<close>
  for some \<open>ps\<close> and \<open>ss\<close>. A body mentions a keyword list when one of the keywords is a
  substring of the lowercased body.
\<close>

definition mentions :: "string list \<Rightarrow> string \<Rightarrow> bool" where
  "mentions keywords body = (\<exists>k\<in>set keywords. sublist k (toLowerCase body))"

text \<open>
  The search criterion in the specification's words: the lowercased query is a substring of
  the lowercased title, body, some tag, or the summary when there is one.
\<close>

definition query_matches :: "string \<Rightarrow> Note \<Rightarrow> bool" where
  "query_matches query note =
     (let q = toLowerCase query
      in (case title note of None \<Rightarrow> False | Some t \<Rightarrow> sublist q (toLowerCase t))
         \<or> (case content note of None \<Rightarrow> False | Some c \<Rightarrow> sublist q (toLowerCase c))
         \<or> (case tags note of None \<Rightarrow> False
             | Some ts \<Rightarrow> \<exists>tag\<in>set ts. sublist q (toLowerCase tag))
         \<or> (case summary note of None \<Rightarrow> False | Some sm \<Rightarrow> sublist q (toLowerCase sm)))"

text \<open>
  A note's timestamps are in order when both are present and the creation time is no later
  than the update time. A call is well timed in a state when it is not a \<^verbatim>\<open>saveNote\<close>
  under an identifier that a note of the collection carries, or supplies a creation time no
  later than its clock reading. A sequence of calls is well timed from a state when each
  call is well timed in the state that the calls before it have produced.
\<close>

definition ordered :: "Note \<Rightarrow> bool" where
  "ordered n =
     (case createdAt n of
        None \<Rightarrow> False
      | Some c \<Rightarrow> (case updatedAt n of None \<Rightarrow> False | Some u \<Rightarrow> c \<le> u))"

fun well_timed :: "storage \<Rightarrow> call \<Rightarrow> bool" where
  "well_timed s (SaveNote now dateNow noteData) =
     (if truthy (note_id noteData)
         \<and> list_ex (\<lambda>note. note_id note = note_id noteData) (notes s)
      then (case createdAt noteData of None \<Rightarrow> False | Some c \<Rightarrow> c \<le> now)
      else True)"
| "well_timed s c = True"

fun well_timed_run :: "date \<Rightarrow> call list \<Rightarrow> storage \<Rightarrow> bool" where
  "well_timed_run t0 [] s = True"
| "well_timed_run t0 (c # cs) s = (well_timed s c \<and> well_timed_run t0 cs (exec t0 c s))"

text \<open>
  The tokens of a body are its maximal runs of characters that are not whitespace. A token
  starts at every position that holds such a character and is the first position or follows
  a whitespace character; the number of tokens is the number of these positions.
\<close>

definition token_starts :: "string \<Rightarrow> nat list" where
  "token_starts s =
     filter (\<lambda>i. \<not> is_ws (s ! i) \<and> (i = 0 \<or> is_ws (s ! (i - 1)))) [0..<length s]"

definition token_count :: "string \<Rightarrow> nat" where
  "token_count s = length (token_starts s)"

text \<open>Counting token starts from left to right; the flag says that a token is running.\<close>

fun count_from :: "bool \<Rightarrow> string \<Rightarrow> nat" where
  "count_from inside [] = 0"
| "count_from inside (c # cs) =
     (if is_ws c then count_from False cs
      else (if inside then 0 else 1) + count_from True cs)"

subsection \<open>Example data\<close>

definition empty_partial :: Note where
  "empty_partial =
     \<lparr>note_id = None, title = None, content = None, tags = None, folder = None,
      createdAt = None, updatedAt = None, wordCount = None, summary = None,
      actionItems = None\<rparr>"

definition note_a :: Note where
  "note_a =
     \<lparr>note_id = Some ''1'', title = Some ''Welcome'', content = Some ''Hello  big world'',
      tags = Some [''welcome''], folder = Some ''quick-notes'', createdAt = Some 100,
      updatedAt = Some 100, wordCount = Some 3, summary = None, actionItems = None\<rparr>"

definition note_b :: Note where
  "note_b =
     \<lparr>note_id = Some ''2'', title = Some ''Plan'', content = Some ''Budget review'',
      tags = Some [], folder = Some ''work'', createdAt = Some 200,
      updatedAt = Some 200, wordCount = Some 2, summary = Some ''Money'',
      actionItems = None\<rparr>"

definition folder_work :: Folder where
  "folder_work =
     \<lparr>folder_id = ''work'', name = ''Work'', color = ''blue'', icon = ''Folder'',
      folder_createdAt = 50\<rparr>"

definition state_ab :: storage where
  "state_ab =
     \<lparr>notes = [note_b, note_a], folders = DEFAULT_FOLDERS 0 @ [folder_work],
      isLoading = False, stored_notes = Some [note_b, note_a],
      stored_folders = Some (DEFAULT_FOLDERS 0 @ [folder_work])\<rparr>"

definition state_a :: storage where
  "state_a =
     \<lparr>notes = [note_a], folders = DEFAULT_FOLDERS 0, isLoading = False,
      stored_notes = Some [note_a], stored_folders = Some (DEFAULT_FOLDERS 0)\<rparr>"

definition editor_save :: Note where
  "editor_save =
     \<lparr>note_id = Some ''1'', title = Some ''Welcome'', content = Some ''Hello again'',
      tags = Some [''welcome''], folder = Some ''quick-notes'', createdAt = None,
      updatedAt = None, wordCount = Some 2, summary = None, actionItems = None\<rparr>"

definition created_note :: Note where
  "created_note =
     \<lparr>note_id = Some ''301'', title = Some ''Untitled'', content = Some ''two  words'',
      tags = Some [], folder = Some ''quick-notes'', createdAt = Some 300,
      updatedAt = Some 300, wordCount = Some 2, summary = None, actionItems = None\<rparr>"

section \<open>Properties\<close>

subsection \<open>Auxiliary facts\<close>

lemma includes_str_sublist: "includes_str hay needle = sublist needle hay"
  by (induction hay) (simp_all add: sublist_Cons_right)

lemma dropWhile_all_iff: "(\<forall>x\<in>set (dropWhile P xs). P x) \<longleftrightarrow> (\<forall>x\<in>set xs. P x)"
proof
  assume a: "\<forall>x\<in>set (dropWhile P xs). P x"
  have "dropWhile P xs = []"
  proof (rule ccontr)
    assume ne: "dropWhile P xs \<noteq> []"
    then have "\<not> P (hd (dropWhile P xs))" by (rule hd_dropWhile)
    moreover from ne have "hd (dropWhile P xs) \<in> set (dropWhile P xs)" by simp
    ultimately show False using a by blast
  qed
  then show "\<forall>x\<in>set xs. P x" by (simp add: dropWhile_eq_Nil_conv)
next
  assume "\<forall>x\<in>set xs. P x"
  then show "\<forall>x\<in>set (dropWhile P xs). P x"
    by (auto dest: set_dropWhileD)
qed

lemma trim_Nil_iff: "trim q = [] \<longleftrightarrow> (\<forall>c\<in>set q. is_ws c)"
  by (simp add: trim_def dropWhile_eq_Nil_conv dropWhile_all_iff)

lemma default_folder_ids:
  "folder_id ` set (DEFAULT_FOLDERS t0) = {''all'', ''quick-notes'', ''meetings'', ''ideas'', ''tasks''}"
  by (simp add: DEFAULT_FOLDERS_def)

lemma isDefaultFolder_iff:
  "isDefaultFolder t0 folderId \<longleftrightarrow>
     folderId \<in> {''all'', ''quick-notes'', ''meetings'', ''ideas'', ''tasks''}"
  by (auto simp add: isDefaultFolder_def DEFAULT_FOLDERS_def)

lemma toLowerCase_Nil: "toLowerCase [] = []"
  by (simp add: toLowerCase_def)

lemma filter_throwing_Inr:
  "filter_throwing p xs = Inr r \<Longrightarrow> r = filter (\<lambda>x. p x = Inr True) xs"
proof (induction xs arbitrary: r)
  case Nil
  then show ?case by simp
next
  case (Cons x xs)
  then show ?case
    by (auto split: sum.splits if_splits)
qed

lemma filter_throwing_total:
  "\<forall>x\<in>set xs. \<exists>b. p x = Inr b \<Longrightarrow> filter_throwing p xs = Inr (filter (\<lambda>x. p x = Inr True) xs)"
proof (induction xs)
  case Nil
  then show ?case by simp
next
  case (Cons x xs)
  then obtain b where "p x = Inr b" by auto
  with Cons show ?case by simp
qed

lemma matches_searchable:
  assumes "searchable n"
  shows "\<exists>b. matches q n = Inr b"
proof -
  from assms obtain t c ts
    where "title n = Some t" and "content n = Some c" and "tags n = Some ts"
    by (auto simp add: searchable_def)
  then show ?thesis
    by (cases "summary n") (simp_all add: matches_def, blast+)
qed

lemma filter_throwing_defined:
  "filter_throwing p xs = Inr r \<Longrightarrow> \<forall>x\<in>set xs. \<exists>b. p x = Inr b"
proof (induction xs arbitrary: r)
  case Nil
  then show ?case by simp
next
  case (Cons x xs)
  then show ?case
    by (auto split: sum.splits)
qed

lemma matches_Inr_query_matches:
  assumes "matches (toLowerCase query) n = Inr b" and "query \<noteq> []"
  shows "b = query_matches query n"
proof -
  from assms(2) have q: "toLowerCase query \<noteq> []"
    by (simp add: toLowerCase_def)
  have e: "sublist (toLowerCase query) [] = False"
    using q by simp
  from assms(1) show ?thesis
    by (auto simp add: matches_def query_matches_def includes_str_sublist list_ex_iff
        toLowerCase_Nil e split: option.splits if_splits)
qed

lemma reassign_count:
  assumes "folderId \<noteq> q"
  shows "length (filter (\<lambda>n. folder n = Some q)
           (map (\<lambda>note. if folder note = Some folderId then note\<lparr>folder := Some q\<rparr> else note) xs))
         = length (filter (\<lambda>n. folder n = Some q) xs)
           + length (filter (\<lambda>n. folder n = Some folderId) xs)"
  using assms by (induction xs) auto

lemma countWords_Nil: "countWords [] = 0"
  by (simp add: countWords_def split_ws.simps [of "[]"])

lemma notes_effect_fields:
  "notes (notes_effect s) = notes s"
  "folders (notes_effect s) = folders s"
  "isLoading (notes_effect s) = isLoading s"
  by (simp_all add: notes_effect_def)

lemma folders_effect_fields:
  "notes (folders_effect s) = notes s"
  "folders (folders_effect s) = folders s"
  "isLoading (folders_effect s) = isLoading s"
  by (simp_all add: folders_effect_def)

lemma saveNote_update:
  assumes "truthy (note_id noteData)"
  shows "saveNote now dateNow noteData s =
           (noteData\<lparr>updatedAt := Some now,
                      wordCount := Some (countWords (or_else (content noteData) []))\<rparr>,
            s\<lparr>notes := map (\<lambda>note. if note_id note = note_id noteData
                                    then noteData\<lparr>updatedAt := Some now,
                                           wordCount := Some (countWords (or_else (content noteData) []))\<rparr>
                                    else note) (notes s)\<rparr>)"
  using assms by (simp add: saveNote_def Let_def)

lemma saveNote_create:
  assumes "\<not> truthy (note_id noteData)"
  shows "saveNote now dateNow noteData s =
           (\<lparr>note_id = Some (toString dateNow),
             title = Some (or_else (title noteData) ''Untitled''),
             content = Some (or_else (content noteData) []),
             tags = Some (case tags noteData of None \<Rightarrow> [] | Some ts \<Rightarrow> ts),
             folder = Some (or_else (folder noteData) ''quick-notes''),
             createdAt = Some now,
             updatedAt = Some now,
             wordCount = Some (countWords (or_else (content noteData) [])),
             summary = summary noteData,
             actionItems = actionItems noteData\<rparr>,
            s\<lparr>notes :=
                 \<lparr>note_id = Some (toString dateNow),
                  title = Some (or_else (title noteData) ''Untitled''),
                  content = Some (or_else (content noteData) []),
                  tags = Some (case tags noteData of None \<Rightarrow> [] | Some ts \<Rightarrow> ts),
                  folder = Some (or_else (folder noteData) ''quick-notes''),
                  createdAt = Some now,
                  updatedAt = Some now,
                  wordCount = Some (countWords (or_else (content noteData) [])),
                  summary = summary noteData,
                  actionItems = actionItems noteData\<rparr> # notes s\<rparr>)"
  using assms by (simp add: saveNote_def Let_def)

lemma exec_ordered:
  assumes "list_all ordered (notes s)" and "well_timed s c"
  shows "list_all ordered (notes (exec t0 c s))"
proof (cases c)
  case (SaveNote now dateNow noteData)
  show ?thesis
  proof (cases "truthy (note_id noteData)")
    case True
    let ?u = "noteData\<lparr>updatedAt := Some now,
        wordCount := Some (countWords (or_else (content noteData) []))\<rparr>"
    have "ordered (if note_id n = note_id noteData then ?u else n)" if n: "n \<in> set (notes s)" for n
    proof (cases "note_id n = note_id noteData")
      case same: True
      with n have "list_ex (\<lambda>note. note_id note = note_id noteData) (notes s)"
        by (auto simp add: list_ex_iff)
      with assms(2) SaveNote True obtain cr where "createdAt noteData = Some cr" and "cr \<le> now"
        by (auto split: option.splits)
      then have "ordered ?u"
        by (simp add: ordered_def)
      with same show ?thesis by simp
    next
      case False
      with assms(1) n show ?thesis
        by (simp add: list_all_iff)
    qed
    then have "list_all ordered
        (map (\<lambda>note. if note_id note = note_id noteData then ?u else note) (notes s))"
      unfolding list_all_iff set_map by blast
    moreover from True SaveNote have "notes (exec t0 c s)
        = map (\<lambda>note. if note_id note = note_id noteData then ?u else note) (notes s)"
      by (simp add: saveNote_update notes_effect_fields)
    ultimately show ?thesis
      by (simp only:)
  next
    case False
    with assms(1) SaveNote show ?thesis
      by (simp add: saveNote_create notes_effect_fields ordered_def)
  qed
next
  case (DeleteNote noteId)
  with assms(1) show ?thesis
    by (simp add: deleteNote_def notes_effect_fields list_all_iff)
next
  case (CreateFolder dateNow now nm col ic)
  with assms(1) show ?thesis
    by (simp add: createFolder_def Let_def folders_effect_fields)
next
  case (DeleteFolder folderId)
  have "ordered (n\<lparr>folder := Some ''quick-notes''\<rparr>) = ordered n" for n
    by (simp add: ordered_def split: option.splits)
  with assms(1) DeleteFolder show ?thesis
    by (auto simp add: deleteFolder_def notes_effect_fields folders_effect_fields list_all_iff)
qed (use assms(1) in simp_all)

lemma run_ordered:
  assumes "list_all ordered (notes s)" and "well_timed_run t0 cs s"
  shows "list_all ordered (notes (run t0 cs s))"
  using assms
proof (induction cs arbitrary: s)
  case Nil
  then show ?case by simp
next
  case (Cons c cs)
  from Cons.prems have "list_all ordered (notes (exec t0 c s))"
    and "well_timed_run t0 cs (exec t0 c s)"
    by (simp_all add: exec_ordered)
  from Cons.IH [OF this] show ?case by simp
qed

lemma resave_updatedAt:
  assumes "truthy (note_id noteData)" and "i < length (notes s)"
    and "updatedAt (notes s ! i) = Some u" and "u \<le> now"
  shows "\<exists>u'. updatedAt (notes (snd (saveNote now dateNow noteData s)) ! i) = Some u' \<and> u \<le> u'"
  using assms by (simp add: saveNote_update)

lemma count_from_word:
  assumes "\<forall>c\<in>set w. \<not> is_ws c"
  shows "count_from b (w @ r)
           = (if w = [] then count_from b r else (if b then 0 else 1) + count_from True r)"
  using assms by (induction w arbitrary: b) auto

lemma count_from_gap:
  assumes "r \<noteq> []" and "is_ws (hd r)"
  shows "count_from b r = count_from False (dropWhile is_ws r)"
proof -
  have "count_from False r = count_from False (dropWhile is_ws r)" for r
    by (induction r) auto
  moreover from assms have "count_from b r = count_from False r"
    by (cases r) auto
  ultimately show ?thesis by simp
qed

lemma countWords_count_from: "countWords s = count_from False s"
proof (induction s rule: split_ws.induct)
  case (1 s)
  define word where "word = takeWhile (\<lambda>c. \<not> is_ws c) s"
  define rest where "rest = dropWhile (\<lambda>c. \<not> is_ws c) s"
  have sp: "split_ws s = (if rest = [] then [word] else word # split_ws (dropWhile is_ws rest))"
    unfolding word_def rest_def by (subst split_ws.simps) (simp add: Let_def)
  have "s = word @ rest"
    by (simp add: word_def rest_def)
  moreover have "\<forall>c\<in>set word. \<not> is_ws c"
    by (auto simp add: word_def dest: set_takeWhileD)
  ultimately have cf: "count_from False s
      = (if word = [] then count_from False rest else 1 + count_from True rest)"
    using count_from_word [of word False rest] by simp
  show ?case
  proof (cases "rest = []")
    case True
    with sp have "countWords s = (if word = [] then 0 else 1)"
      by (simp add: countWords_def)
    moreover from True have "count_from b rest = 0" for b
      by simp
    ultimately show ?thesis
      using cf by simp
  next
    case False
    then have h: "is_ws (hd rest)"
      unfolding rest_def using hd_dropWhile [of "\<lambda>c. \<not> is_ws c" s] by simp
    from False have ih: "countWords (dropWhile is_ws rest) = count_from False (dropWhile is_ws rest)"
      unfolding rest_def by (rule "1.IH" [OF refl refl])
    from False sp have "countWords s
        = (if word = [] then 0 else 1) + countWords (dropWhile is_ws rest)"
      by (simp add: countWords_def)
    moreover have "count_from b rest = count_from False (dropWhile is_ws rest)" for b
      by (rule count_from_gap [OF False h])
    ultimately show ?thesis
      using cf ih by simp
  qed
qed

lemma count_from_starts:
  "count_from b s
     = length (filter (\<lambda>i. \<not> is_ws (s ! i) \<and> (if i = 0 then \<not> b else is_ws (s ! (i - 1))))
                [0..<length s])"
proof (induction s arbitrary: b)
  case Nil
  then show ?case by simp
next
  case (Cons c cs)
  have u: "[0..<length (c # cs)] = 0 # map Suc [0..<length cs]"
    by (simp add: upt_conv_Cons map_Suc_upt del: upt_Suc)
  have "length (filter (\<lambda>i. \<not> is_ws ((c # cs) ! i)
                    \<and> (if i = 0 then \<not> b else is_ws ((c # cs) ! (i - 1))))
          (map Suc [0..<length cs]))
        = length (filter (\<lambda>i. \<not> is_ws (cs ! i)
                    \<and> (if i = 0 then is_ws c else is_ws (cs ! (i - 1))))
          [0..<length cs])"
    unfolding filter_map length_map
    by (rule arg_cong [where f = length], rule filter_cong) (auto simp add: nth_Cons')
  also have "\<dots> = count_from (\<not> is_ws c) cs"
    using Cons.IH [of "\<not> is_ws c"] by simp
  finally show ?case
    unfolding u by (cases "is_ws c") auto
qed

lemma countWords_token_count: "countWords s = token_count s"
proof -
  have "filter (\<lambda>i. \<not> is_ws (s ! i) \<and> (if i = 0 then \<not> False else is_ws (s ! (i - 1))))
          [0..<length s] = token_starts s"
    unfolding token_starts_def by (rule filter_cong) auto
  then show ?thesis
    by (simp only: countWords_count_from count_from_starts token_count_def)
qed

lemma digits_nonempty: "digits n \<noteq> []"
  by (subst digits.simps) simp

lemma digit_char_inj:
  assumes "a < 10" and "b < 10" and "char_of (48 + a :: nat) = char_of (48 + b :: nat)"
  shows "a = b"
proof -
  from assms(3) have "of_char (char_of (48 + a) :: char) = (of_char (char_of (48 + b) :: char) :: nat)"
    by simp
  then have "(48 + a) mod 256 = (48 + b) mod 256"
    by (simp only: of_char_of)
  with assms(1,2) show ?thesis by simp
qed

lemma digits_inj: "digits n = digits m \<Longrightarrow> n = m"
proof (induction n arbitrary: m rule: digits.induct)
  case (1 n)
  show ?case
  proof (cases "n < 10")
    case n: True
    show ?thesis
    proof (cases "m < 10")
      case True
      with n "1.prems" show ?thesis
        by (simp add: digits.simps [of n] digits.simps [of m] digit_char_inj)
    next
      case False
      with n "1.prems" digits_nonempty [of "m div 10"] show ?thesis
        by (simp add: digits.simps [of n] digits.simps [of m])
    qed
  next
    case n: False
    show ?thesis
    proof (cases "m < 10")
      case True
      with n "1.prems" digits_nonempty [of "n div 10"] show ?thesis
        by (simp add: digits.simps [of n] digits.simps [of m])
    next
      case False
      with n "1.prems" have d: "digits (n div 10) = digits (m div 10)"
        and c: "char_of (48 + n mod 10) = char_of (48 + m mod 10)"
        by (simp_all add: digits.simps [of n] digits.simps [of m])
      from "1.IH" [OF n d] have "n div 10 = m div 10" .
      moreover from c have "n mod 10 = m mod 10"
        by (intro digit_char_inj) simp_all
      ultimately show ?thesis
        by (metis div_mult_mod_eq)
    qed
  qed
qed

lemma digit_char_not_minus:
  assumes "k < 10"
  shows "char_of (48 + k :: nat) \<noteq> CHR ''-''"
proof
  assume "char_of (48 + k) = CHR ''-''"
  then have "of_char (char_of (48 + k) :: char) = (of_char (CHR ''-'') :: nat)"
    by simp
  then have "(48 + k) mod 256 = 45"
    by (simp only: of_char_of) simp
  with assms show False by simp
qed

lemma digits_no_minus: "CHR ''-'' \<notin> set (digits n)"
proof (induction n rule: digits.induct)
  case (1 n)
  show ?case
  proof (cases "n < 10")
    case True
    then have "set (digits n) = {char_of (48 + n)}"
      by (subst digits.simps) simp
    with digit_char_not_minus [OF True] show ?thesis
      by (metis singletonD)
  next
    case False
    then have "set (digits n) = set (digits (n div 10)) \<union> {char_of (48 + n mod 10)}"
      by (subst digits.simps) simp
    moreover have "char_of (48 + n mod 10) \<noteq> CHR ''-''"
      by (rule digit_char_not_minus) simp
    moreover from False have "CHR ''-'' \<notin> set (digits (n div 10))"
      by (rule "1.IH")
    ultimately show ?thesis
      by (metis Un_iff singletonD)
  qed
qed

lemma toString_inj: "toString i = toString j \<longleftrightarrow> i = j"
proof
  assume e: "toString i = toString j"
  have hd_neg: "hd (digits n) \<noteq> CHR ''-''" for n
    using digits_no_minus [of n] digits_nonempty [of n] by (cases "digits n") auto
  show "i = j"
  proof (cases "i < 0")
    case i: True
    show ?thesis
    proof (cases "j < 0")
      case True
      with i e have "digits (nat (- i)) = digits (nat (- j))"
        by (simp add: toString_def)
      then have "nat (- i) = nat (- j)" by (rule digits_inj)
      with i True show ?thesis by simp
    next
      case False
      with i e have "hd (digits (nat j)) = CHR ''-''"
        by (simp add: toString_def) (metis list.sel(1))
      with hd_neg show ?thesis by blast
    qed
  next
    case i: False
    show ?thesis
    proof (cases "j < 0")
      case True
      with i e have "hd (digits (nat i)) = CHR ''-''"
        by (simp add: toString_def)
      with hd_neg show ?thesis by blast
    next
      case False
      with i e have "digits (nat i) = digits (nat j)"
        by (simp add: toString_def)
      then have "nat i = nat j" by (rule digits_inj)
      with i False show ?thesis by simp
    qed
  qed
qed simp

lemma getNotesInFolder_Cons:
  "getNotesInFolder (s\<lparr>notes := r # notes s\<rparr>) folderId
     = (if folderId = ''all'' \<or> folder r = Some folderId
        then r # getNotesInFolder s folderId else getNotesInFolder s folderId)"
  by (simp add: getNotesInFolder_def)

subsection \<open>Creating notes\<close>

text \<open>
  C1, as the code has it. saveNote with no identifier, or the empty one, returns a note whose
  identifier is the decimal numeral of the clock reading taken by Date.now(); two readings
  give the same identifier only when they are equal. The title is "Untitled" when the given
  one is absent or empty, the tags are the empty list when none are given, the folder is
  "quick-notes" when the given one is absent or empty, both timestamps are the current time,
  and the word count is the number of whitespace-delimited tokens of the note's body. The
  note is put in front of the collection, so it is listed before every older note by
  getNotesInFolder; of two notes created in sequence the second is listed first.
\<close>

theorem saveNote_creates:
  assumes "\<not> truthy (note_id noteData)" and "saveNote now dateNow noteData s = (r, s')"
  shows "note_id r = Some (toString dateNow)
     \<and> (\<forall>d. toString d = toString dateNow \<longleftrightarrow> d = dateNow)
     \<and> title r = Some (case title noteData of
                         None \<Rightarrow> ''Untitled''
                       | Some t \<Rightarrow> if t = [] then ''Untitled'' else t)
     \<and> content r = Some (case content noteData of None \<Rightarrow> [] | Some c \<Rightarrow> c)
     \<and> tags r = Some (case tags noteData of None \<Rightarrow> [] | Some ts \<Rightarrow> ts)
     \<and> folder r = Some (case folder noteData of
                          None \<Rightarrow> ''quick-notes''
                        | Some f \<Rightarrow> if f = [] then ''quick-notes'' else f)
     \<and> createdAt r = Some now \<and> updatedAt r = Some now
     \<and> (\<exists>body. content r = Some body \<and> wordCount r = Some (token_count body))
     \<and> summary r = summary noteData \<and> actionItems r = actionItems noteData
     \<and> notes s' = r # notes s \<and> folders s' = folders s
     \<and> (\<forall>folderId. getNotesInFolder s' folderId
           = (if folderId = ''all'' \<or> folder r = Some folderId
              then r # getNotesInFolder s folderId else getNotesInFolder s folderId))
     \<and> (\<forall>now2 dateNow2 noteData2 r2 s2.
           \<not> truthy (note_id noteData2) \<and> saveNote now2 dateNow2 noteData2 s' = (r2, s2) \<longrightarrow>
             notes s2 = r2 # r # notes s
             \<and> getNotesInFolder s2 ''all'' = r2 # r # notes s
             \<and> (\<forall>folderId. folder r = Some folderId \<and> folder r2 = Some folderId \<longrightarrow>
                   getNotesInFolder s2 folderId = r2 # r # getNotesInFolder s folderId))"
proof -
  from assms have r: "r = \<lparr>note_id = Some (toString dateNow),
             title = Some (or_else (title noteData) ''Untitled''),
             content = Some (or_else (content noteData) []),
             tags = Some (case tags noteData of None \<Rightarrow> [] | Some ts \<Rightarrow> ts),
             folder = Some (or_else (folder noteData) ''quick-notes''),
             createdAt = Some now,
             updatedAt = Some now,
             wordCount = Some (countWords (or_else (content noteData) [])),
             summary = summary noteData,
             actionItems = actionItems noteData\<rparr>"
    and s': "s' = s\<lparr>notes := r # notes s\<rparr>"
    by (auto simp add: saveNote_create)
  have f1: "note_id r = Some (toString dateNow)" "createdAt r = Some now"
    "updatedAt r = Some now" "summary r = summary noteData"
    "actionItems r = actionItems noteData"
    "tags r = Some (case tags noteData of None \<Rightarrow> [] | Some ts \<Rightarrow> ts)"
    by (simp_all add: r)
  have f2: "title r = Some (case title noteData of
                         None \<Rightarrow> ''Untitled''
                       | Some t \<Rightarrow> if t = [] then ''Untitled'' else t)"
    "content r = Some (case content noteData of None \<Rightarrow> [] | Some c \<Rightarrow> c)"
    "folder r = Some (case folder noteData of
                          None \<Rightarrow> ''quick-notes''
                        | Some f \<Rightarrow> if f = [] then ''quick-notes'' else f)"
    by (simp_all add: r or_else_def split: option.splits)
  have f3: "\<exists>body. content r = Some body \<and> wordCount r = Some (token_count body)"
    by (simp add: r countWords_token_count)
  have f4: "notes s' = r # notes s" "folders s' = folders s"
    by (simp_all add: s')
  have f5: "getNotesInFolder s' folderId
           = (if folderId = ''all'' \<or> folder r = Some folderId
              then r # getNotesInFolder s folderId else getNotesInFolder s folderId)"
    for folderId
    unfolding s' by (rule getNotesInFolder_Cons)
  have f6: "notes s2 = r2 # r # notes s
             \<and> getNotesInFolder s2 ''all'' = r2 # r # notes s
             \<and> (\<forall>folderId. folder r = Some folderId \<and> folder r2 = Some folderId \<longrightarrow>
                   getNotesInFolder s2 folderId = r2 # r # getNotesInFolder s folderId)"
    if "\<not> truthy (note_id noteData2)" and "saveNote now2 dateNow2 noteData2 s' = (r2, s2)"
    for now2 dateNow2 noteData2 r2 s2
  proof -
    from that have s2: "s2 = s'\<lparr>notes := r2 # notes s'\<rparr>"
      by (auto simp add: saveNote_create)
    have "getNotesInFolder s2 folderId
           = (if folderId = ''all'' \<or> folder r2 = Some folderId
              then r2 # getNotesInFolder s' folderId else getNotesInFolder s' folderId)"
      for folderId
      unfolding s2 by (rule getNotesInFolder_Cons)
    with f4 f5 s2 show ?thesis
      by (simp add: getNotesInFolder_def)
  qed
  from f1 f2 f3 f4 f5 f6 show ?thesis
    by (simp only: toString_inj simp_thms) blast
qed

theorem saveNote_creates_witness:
  "\<not> truthy (note_id (empty_partial\<lparr>content := Some ''two  words''\<rparr>))
   \<and> saveNote 300 301 (empty_partial\<lparr>content := Some ''two  words''\<rparr>) state_ab
       = (created_note, state_ab\<lparr>notes := created_note # notes state_ab\<rparr>)
   \<and> (\<exists>body. content created_note = Some body
              \<and> wordCount created_note = Some (token_count body))
   \<and> getNotesInFolder (state_ab\<lparr>notes := created_note # notes state_ab\<rparr>) ''quick-notes''
       = created_note # getNotesInFolder state_ab ''quick-notes''"
proof -
  let ?d = "empty_partial\<lparr>content := Some ''two  words''\<rparr>"
  have h1: "\<not> truthy (note_id ?d)"
    by (simp add: truthy_def empty_partial_def)
  have c: "countWords ''two  words'' = 2"
    by code_simp
  have t: "toString 301 = ''301''"
    by code_simp
  have h2: "saveNote 300 301 ?d state_ab
              = (created_note, state_ab\<lparr>notes := created_note # notes state_ab\<rparr>)"
    by (simp add: saveNote_def Let_def truthy_def or_else_def empty_partial_def
        created_note_def c t)
  have f: "folder created_note = Some ''quick-notes''"
    by (simp add: created_note_def)
  note th = saveNote_creates [OF h1 h2]
  from th have a: "\<exists>body. content created_note = Some body
      \<and> wordCount created_note = Some (token_count body)"
    by blast
  from th have "\<forall>folderId.
      getNotesInFolder (state_ab\<lparr>notes := created_note # notes state_ab\<rparr>) folderId
        = (if folderId = ''all'' \<or> folder created_note = Some folderId
           then created_note # getNotesInFolder state_ab folderId
           else getNotesInFolder state_ab folderId)"
    by blast
  with f have b: "getNotesInFolder (state_ab\<lparr>notes := created_note # notes state_ab\<rparr>)
        ''quick-notes'' = created_note # getNotesInFolder state_ab ''quick-notes''"
    by simp
  from h1 h2 a b show ?thesis
    by blast
qed

text \<open>
  C1 as stated fails for the freshness of the identifier: two creations at the same clock
  reading return the same identifier, which the collection then holds twice.
\<close>

theorem saveNote_identifier_not_fresh:
  "\<not> truthy (note_id empty_partial)
   \<and> note_id (fst (saveNote 100 100 empty_partial state_ab)) = Some ''100''
   \<and> note_id (fst (saveNote 100 100 empty_partial
                      (snd (saveNote 100 100 empty_partial state_ab)))) = Some ''100''
   \<and> note_id (fst (saveNote 100 100 empty_partial
                      (snd (saveNote 100 100 empty_partial state_ab))))
       \<in> note_id ` set (notes (snd (saveNote 100 100 empty_partial state_ab)))"
proof -
  have t: "toString 100 = ''100''"
    by code_simp
  show ?thesis
    by (simp add: saveNote_def Let_def truthy_def empty_partial_def t)
qed

subsection \<open>Searching\<close>

text \<open>
  C7. Whenever searchNotes returns, its result is the whole collection in its order if the
  query is empty or consists of whitespace only, and otherwise exactly the notes, in
  collection order, for which the lowercased query is a substring of the lowercased title,
  body, some tag, or the summary when present. It returns on every collection whose notes
  all carry a title, a body and a tag list, as the interface Note requires.
\<close>

theorem searchNotes_spec:
  "(\<forall>r. searchNotes s query = Inr r \<longrightarrow>
       r = (if \<forall>c\<in>set query. is_ws c then notes s
            else filter (query_matches query) (notes s)))
   \<and> ((\<forall>n\<in>set (notes s). searchable n) \<longrightarrow>
        searchNotes s query
          = Inr (if \<forall>c\<in>set query. is_ws c then notes s
                 else filter (query_matches query) (notes s)))"
proof (cases "trim query = []")
  case True
  then have "\<forall>c\<in>set query. is_ws c"
    by (simp only: trim_Nil_iff)
  then have rhs: "(if \<forall>c\<in>set query. is_ws c then notes s
                   else filter (query_matches query) (notes s)) = notes s"
    by (rule if_P)
  from True have "searchNotes s query = Inr (notes s)"
    by (simp add: searchNotes_def)
  then show ?thesis
    unfolding rhs by simp
next
  case False
  then have ne: "query \<noteq> []"
    by (auto simp add: trim_def)
  from False have "\<not> (\<forall>c\<in>set query. is_ws c)"
    by (simp only: trim_Nil_iff not_False_eq_True)
  then have rhs: "(if \<forall>c\<in>set query. is_ws c then notes s
                   else filter (query_matches query) (notes s))
                  = filter (query_matches query) (notes s)"
    by (rule if_not_P)
  have part: "r = filter (query_matches query) (notes s)" if "searchNotes s query = Inr r" for r
  proof -
    from that False
    have ft: "filter_throwing (matches (toLowerCase query)) (notes s) = Inr r"
      by (simp add: searchNotes_def)
    from filter_throwing_Inr [OF ft]
    have "r = filter (\<lambda>n. matches (toLowerCase query) n = Inr True) (notes s)" .
    also have "\<dots> = filter (query_matches query) (notes s)"
    proof (rule filter_cong [OF refl])
      fix n assume "n \<in> set (notes s)"
      with filter_throwing_defined [OF ft] obtain b
        where b: "matches (toLowerCase query) n = Inr b" by blast
      from matches_Inr_query_matches [OF b ne] b
      show "(matches (toLowerCase query) n = Inr True) = query_matches query n"
        by simp
    qed
    finally show ?thesis .
  qed
  have tot: "searchNotes s query = Inr (filter (query_matches query) (notes s))"
    if "\<forall>n\<in>set (notes s). searchable n"
  proof -
    from that have "\<forall>n\<in>set (notes s). \<exists>b. matches (toLowerCase query) n = Inr b"
      by (simp add: matches_searchable)
    from filter_throwing_total [OF this] False
    have e: "searchNotes s query
          = Inr (filter (\<lambda>n. matches (toLowerCase query) n = Inr True) (notes s))"
      by (simp add: searchNotes_def)
    from part [OF e] e show ?thesis by simp
  qed
  show ?thesis
    unfolding rhs using part tot by blast
qed

theorem searchNotes_spec_witness:
  "notes state_ab = [note_b, note_a] \<and> searchable note_b \<and> searchable note_a
   \<and> searchNotes state_ab ''WORLD'' = Inr [note_a]
   \<and> searchNotes state_ab ''  '' = Inr [note_b, note_a]"
proof -
  have h: "\<forall>n\<in>set (notes state_ab). searchable n"
    by (simp add: state_ab_def note_a_def note_b_def searchable_def)
  have e1: "(if \<forall>c\<in>set ''WORLD''. is_ws c then notes state_ab
             else filter (query_matches ''WORLD'') (notes state_ab)) = [note_a]"
    by code_simp
  have e2: "(if \<forall>c\<in>set ''  ''. is_ws c then notes state_ab
             else filter (query_matches ''  '') (notes state_ab)) = [note_b, note_a]"
    by code_simp
  have n: "notes state_ab = [note_b, note_a]"
    by (simp add: state_ab_def)
  have r1: "searchNotes state_ab ''WORLD'' = Inr [note_a]"
    using searchNotes_spec [of state_ab "''WORLD''", THEN conjunct2, THEN mp, OF h]
    by (simp only: e1)
  have r2: "searchNotes state_ab ''  '' = Inr [note_b, note_a]"
    using searchNotes_spec [of state_ab "''  ''", THEN conjunct2, THEN mp, OF h]
    by (simp only: e2)
  from h n have "searchable note_b \<and> searchable note_a"
    by simp
  with n r1 r2 show ?thesis by simp
qed

text \<open>
  C10. getNotesInFolder and searchNotes return an order-preserving sublist of the note
  collection: the collection filtered by some predicate, hence with no entry duplicated or
  moved. searchNotes returns on every collection whose notes carry a title, a body and a tag
  list. A call of either leaves the hook's state as it was, and getNotesInFolder with the
  identifier "all" returns the collection itself.
\<close>

theorem reads_are_sublists:
  "subseq (getNotesInFolder s folderId) (notes s)
   \<and> (\<exists>P. getNotesInFolder s folderId = filter P (notes s))
   \<and> getNotesInFolder s ''all'' = notes s
   \<and> (\<forall>r. searchNotes s query = Inr r \<longrightarrow>
         subseq r (notes s) \<and> (\<exists>P. r = filter P (notes s)))
   \<and> ((\<forall>n\<in>set (notes s). searchable n) \<longrightarrow> (\<exists>r. searchNotes s query = Inr r))
   \<and> exec t0 (GetNotesInFolder folderId) s = s
   \<and> exec t0 (SearchNotes query) s = s"
proof -
  have g: "\<exists>P. getNotesInFolder s folderId = filter P (notes s)"
  proof (cases "folderId = ''all''")
    case True
    then have "getNotesInFolder s folderId = filter (\<lambda>_. True) (notes s)"
      by (simp add: getNotesInFolder_def)
    then show ?thesis by blast
  next
    case False
    then show ?thesis by (auto simp add: getNotesInFolder_def)
  qed
  then have g': "subseq (getNotesInFolder s folderId) (notes s)"
    by auto
  have sr: "\<exists>P. r = filter P (notes s)" if "searchNotes s query = Inr r" for r
  proof (cases "trim query = []")
    case True
    with that have "r = filter (\<lambda>_. True) (notes s)"
      by (simp add: searchNotes_def)
    then show ?thesis by blast
  next
    case False
    with that have "filter_throwing (matches (toLowerCase query)) (notes s) = Inr r"
      by (simp add: searchNotes_def)
    from filter_throwing_Inr [OF this] show ?thesis by blast
  qed
  have sr': "subseq r (notes s)" if "searchNotes s query = Inr r" for r
    using sr [OF that] by auto
  have tot: "\<exists>r. searchNotes s query = Inr r" if "\<forall>n\<in>set (notes s). searchable n"
  proof -
    from that have "\<forall>n\<in>set (notes s). \<exists>b. matches (toLowerCase query) n = Inr b"
      by (simp add: matches_searchable)
    from filter_throwing_total [OF this] show ?thesis
      by (simp add: searchNotes_def)
  qed
  from g g' sr sr' tot show ?thesis
    by (simp add: getNotesInFolder_def)
qed

theorem reads_are_sublists_witness:
  "notes state_ab = [note_b, note_a] \<and> searchable note_b \<and> searchable note_a
   \<and> (\<exists>r. searchNotes state_ab ''money'' = Inr r \<and> subseq r (notes state_ab))
   \<and> subseq (getNotesInFolder state_ab ''work'') (notes state_ab)
   \<and> getNotesInFolder state_ab ''work'' = [note_b]"
proof -
  have h: "\<forall>n\<in>set (notes state_ab). searchable n"
    by (simp add: state_ab_def note_a_def note_b_def searchable_def)
  have e: "getNotesInFolder state_ab ''work'' = [note_b]"
    by (simp add: getNotesInFolder_def state_ab_def note_a_def note_b_def)
  have n: "notes state_ab = [note_b, note_a]"
    by (simp add: state_ab_def)
  from h have "searchable note_b \<and> searchable note_a"
    by (simp add: n)
  with h e n reads_are_sublists [of state_ab "''work''" "''money''" 0] show ?thesis
    by blast
qed

subsection \<open>Categorising\<close>

text \<open>
  C8. categorizeNote returns one of the four identifiers "meetings", "ideas", "tasks" and
  "quick-notes", by the first rule that applies: a body mentioning "meeting", "agenda" or
  "discussed" goes to "meetings"; otherwise one mentioning "idea", "brainstorm" or "concept"
  goes to "ideas"; otherwise one mentioning "todo", "task" or "action item" goes to "tasks";
  any other body goes to "quick-notes". The body "Let's discuss the meeting agenda" goes to
  "meetings".
\<close>

theorem categorizeNote_rules:
  "categorizeNote body \<in> {''meetings'', ''ideas'', ''tasks'', ''quick-notes''}
   \<and> (mentions [''meeting'', ''agenda'', ''discussed''] body
        \<longrightarrow> categorizeNote body = ''meetings'')
   \<and> (\<not> mentions [''meeting'', ''agenda'', ''discussed''] body
        \<and> mentions [''idea'', ''brainstorm'', ''concept''] body
        \<longrightarrow> categorizeNote body = ''ideas'')
   \<and> (\<not> mentions [''meeting'', ''agenda'', ''discussed''] body
        \<and> \<not> mentions [''idea'', ''brainstorm'', ''concept''] body
        \<and> mentions [''todo'', ''task'', ''action item''] body
        \<longrightarrow> categorizeNote body = ''tasks'')
   \<and> (\<not> mentions [''meeting'', ''agenda'', ''discussed''] body
        \<and> \<not> mentions [''idea'', ''brainstorm'', ''concept''] body
        \<and> \<not> mentions [''todo'', ''task'', ''action item''] body
        \<longrightarrow> categorizeNote body = ''quick-notes'')
   \<and> categorizeNote ''Let's discuss the meeting agenda'' = ''meetings''"
proof -
  have "categorizeNote ''Let's discuss the meeting agenda'' = ''meetings''"
    by code_simp
  then show ?thesis
    by (simp add: categorizeNote_def mentions_def includes_str_sublist Let_def)
qed

theorem categorizeNote_rules_witness:
  "\<not> mentions [''meeting'', ''agenda'', ''discussed''] ''Brainstorm the TODO list''
   \<and> mentions [''idea'', ''brainstorm'', ''concept''] ''Brainstorm the TODO list''
   \<and> mentions [''todo'', ''task'', ''action item''] ''Brainstorm the TODO list''
   \<and> categorizeNote ''Brainstorm the TODO list'' = ''ideas''"
proof -
  have a: "\<not> mentions [''meeting'', ''agenda'', ''discussed''] ''Brainstorm the TODO list''"
    by code_simp
  have b: "mentions [''idea'', ''brainstorm'', ''concept''] ''Brainstorm the TODO list''"
    by code_simp
  have c: "mentions [''todo'', ''task'', ''action item''] ''Brainstorm the TODO list''"
    by code_simp
  from a b c categorizeNote_rules [of "''Brainstorm the TODO list''"] show ?thesis
    by blast
qed

subsection \<open>Deleting folders and notes\<close>

text \<open>
  C6. The identifiers of the default folders are "all", "quick-notes", "meetings", "ideas"
  and "tasks". deleteFolder on any of them returns at once: the folder collection, the note
  collection and the stored entries all stay as they were.
\<close>

theorem deleteFolder_default_refused:
  "folder_id ` set (DEFAULT_FOLDERS t0)
     = {''all'', ''quick-notes'', ''meetings'', ''ideas'', ''tasks''}
   \<and> (folderId \<in> folder_id ` set (DEFAULT_FOLDERS t0) \<longrightarrow>
        deleteFolder t0 folderId s = s \<and> exec t0 (DeleteFolder folderId) s = s)"
  by (simp add: default_folder_ids deleteFolder_def isDefaultFolder_iff)

theorem deleteFolder_default_refused_witness:
  "''all'' \<in> folder_id ` set (DEFAULT_FOLDERS 0)
   \<and> deleteFolder 0 ''all'' state_ab = state_ab
   \<and> exec 0 (DeleteFolder ''all'') state_ab = state_ab"
  using deleteFolder_default_refused [of 0 "''all''" state_ab]
  by simp

text \<open>
  C5. For a folder identifier outside the default set, deleteFolder keeps the length and
  order of the note collection, replaces each note whose folder is that identifier by the
  same note with folder "quick-notes" and leaves every other note as it is; so the
  "quick-notes" folder gains exactly the N former members and no note remains in the deleted
  folder. The folder collection loses every folder with that identifier and nothing else.
  deleteNote with an identifier that no note carries leaves the state, and so the size of the
  note collection, unchanged.
\<close>

theorem deleteFolder_reassigns:
  assumes "folderId \<notin> folder_id ` set (DEFAULT_FOLDERS t0)"
  shows "length (notes (deleteFolder t0 folderId s)) = length (notes s)
     \<and> (\<forall>i<length (notes s).
           notes (deleteFolder t0 folderId s) ! i
             = (if folder (notes s ! i) = Some folderId
                then (notes s ! i)\<lparr>folder := Some ''quick-notes''\<rparr> else notes s ! i))
     \<and> length (filter (\<lambda>n. folder n = Some ''quick-notes'') (notes (deleteFolder t0 folderId s)))
         = length (filter (\<lambda>n. folder n = Some ''quick-notes'') (notes s))
           + length (filter (\<lambda>n. folder n = Some folderId) (notes s))
     \<and> (\<forall>n\<in>set (notes (deleteFolder t0 folderId s)). folder n \<noteq> Some folderId)
     \<and> folders (deleteFolder t0 folderId s) = filter (\<lambda>f. folder_id f \<noteq> folderId) (folders s)
     \<and> folderId \<notin> folder_id ` set (folders (deleteFolder t0 folderId s))
     \<and> (\<forall>noteId. (\<forall>n\<in>set (notes s). note_id n \<noteq> Some noteId) \<longrightarrow>
           deleteNote noteId s = s \<and> length (notes (deleteNote noteId s)) = length (notes s))"
proof -
  from assms have nd: "\<not> isDefaultFolder t0 folderId"
    by (simp add: isDefaultFolder_iff default_folder_ids)
  from assms have nq: "folderId \<noteq> ''quick-notes''"
    by (auto simp add: default_folder_ids)
  have dn: "deleteNote noteId s = s" if "\<forall>n\<in>set (notes s). note_id n \<noteq> Some noteId" for noteId
  proof -
    from that have "filter (\<lambda>note. note_id note \<noteq> Some noteId) (notes s) = notes s"
      by (simp add: filter_id_conv)
    then show ?thesis by (simp add: deleteNote_def)
  qed
  from nd nq reassign_count [OF nq, of "notes s"] dn show ?thesis
    by (auto simp add: deleteFolder_def)
qed

theorem deleteFolder_reassigns_witness:
  "''work'' \<notin> folder_id ` set (DEFAULT_FOLDERS 0)
   \<and> notes (deleteFolder 0 ''work'' state_ab) = [note_b\<lparr>folder := Some ''quick-notes''\<rparr>, note_a]
   \<and> folders (deleteFolder 0 ''work'' state_ab) = DEFAULT_FOLDERS 0
   \<and> note_id note_b \<noteq> Some ''7'' \<and> note_id note_a \<noteq> Some ''7''
   \<and> deleteNote ''7'' state_ab = state_ab"
proof -
  have a: "''work'' \<notin> folder_id ` set (DEFAULT_FOLDERS 0)"
    by (simp add: DEFAULT_FOLDERS_def)
  have n: "notes state_ab = [note_b, note_a]"
    by (simp add: state_ab_def)
  have f: "folder note_b = Some ''work''" "folder note_a = Some ''quick-notes''"
    by (simp_all add: note_a_def note_b_def)
  have i: "note_id note_b \<noteq> Some ''7'' \<and> note_id note_a \<noteq> Some ''7''"
    by (simp add: note_a_def note_b_def)
  have l: "length (notes (deleteFolder 0 ''work'' state_ab)) = 2"
    using deleteFolder_reassigns [OF a, of state_ab] n by simp
  have e0: "notes (deleteFolder 0 ''work'' state_ab) ! 0 = note_b\<lparr>folder := Some ''quick-notes''\<rparr>"
    using deleteFolder_reassigns [OF a, of state_ab] n f by simp
  have e1: "notes (deleteFolder 0 ''work'' state_ab) ! 1 = note_a"
    using deleteFolder_reassigns [OF a, of state_ab] n f by simp
  have nn: "notes (deleteFolder 0 ''work'' state_ab) = [note_b\<lparr>folder := Some ''quick-notes''\<rparr>, note_a]"
    using l e0 e1 by (auto simp add: list_eq_iff_nth_eq less_Suc_eq numeral_2_eq_2)
  have ff: "folders (deleteFolder 0 ''work'' state_ab) = DEFAULT_FOLDERS 0"
    using deleteFolder_reassigns [OF a, of state_ab]
    by (simp add: state_ab_def folder_work_def DEFAULT_FOLDERS_def)
  have dd: "deleteNote ''7'' state_ab = state_ab"
    using deleteFolder_reassigns [OF a, of state_ab] n i by simp
  from a nn ff i dd show ?thesis by simp
qed

subsection \<open>Saving under an identifier that no note carries\<close>

text \<open>
  C4. saveNote with a non-empty identifier that no note of the collection carries raises
  nothing and leaves the note collection (indeed the whole state) unchanged: it returns the
  given data with the update time and the word count set, and that record is not a member of
  the collection afterwards.
\<close>

theorem saveNote_unknown_id:
  assumes "truthy (note_id noteData)"
    and "\<forall>n\<in>set (notes s). note_id n \<noteq> note_id noteData"
  shows "snd (saveNote now dateNow noteData s) = s
     \<and> fst (saveNote now dateNow noteData s)
         = noteData\<lparr>updatedAt := Some now,
                    wordCount := Some (countWords (or_else (content noteData) []))\<rparr>
     \<and> fst (saveNote now dateNow noteData s) \<notin> set (notes (snd (saveNote now dateNow noteData s)))
     \<and> notes (exec t0 (SaveNote now dateNow noteData) s) = notes s
     \<and> folders (exec t0 (SaveNote now dateNow noteData) s) = folders s"
proof -
  let ?u = "noteData\<lparr>updatedAt := Some now,
                      wordCount := Some (countWords (or_else (content noteData) []))\<rparr>"
  from assms(2)
  have m: "map (\<lambda>note. if note_id note = note_id noteData then ?u else note) (notes s) = notes s"
    by (induction "notes s") (simp_all add: map_idI)
  from assms(1) m have sn: "saveNote now dateNow noteData s = (?u, s)"
    by (simp add: saveNote_def)
  have "note_id ?u = note_id noteData" by simp
  with assms(2) have "?u \<notin> set (notes s)" by blast
  with sn show ?thesis
    by (simp add: notes_effect_def)
qed

theorem saveNote_unknown_id_witness:
  "truthy (note_id (empty_partial\<lparr>note_id := Some ''99'', title := Some ''New''\<rparr>))
   \<and> notes state_ab = [note_b, note_a]
   \<and> note_id note_b \<noteq> Some ''99'' \<and> note_id note_a \<noteq> Some ''99''
   \<and> snd (saveNote 300 300 (empty_partial\<lparr>note_id := Some ''99'', title := Some ''New''\<rparr>) state_ab)
       = state_ab"
proof -
  let ?d = "empty_partial\<lparr>note_id := Some ''99'', title := Some ''New''\<rparr>"
  have t: "truthy (note_id ?d)"
    by (simp add: truthy_def)
  have n: "notes state_ab = [note_b, note_a]"
    by (simp add: state_ab_def)
  have i: "note_id note_b \<noteq> Some ''99'' \<and> note_id note_a \<noteq> Some ''99''"
    by (simp add: note_a_def note_b_def)
  then have h: "\<forall>n\<in>set (notes state_ab). note_id n \<noteq> note_id ?d"
    by (simp add: n)
  from saveNote_unknown_id [OF t h, of 300 300 0] t n i show ?thesis
    by simp
qed

subsection \<open>Mirroring to local storage\<close>

text \<open>
  C9, evaluated where it fails. The effect that writes the note collection is guarded by
  \<^verbatim>\<open>notes.length > 0\<close>, against its own comment (save notes whenever they change) and
  unlike the effect for the folders. With loading finished and the stored entry equal to the
  collection, deleting the only note empties the collection and writes nothing: the stored
  entry still holds the deleted note.
\<close>

theorem emptied_collection_not_mirrored:
  "\<not> isLoading state_a \<and> stored_notes state_a = Some (notes state_a)
   \<and> notes (exec 0 (DeleteNote ''1'') state_a) = []
   \<and> stored_notes (exec 0 (DeleteNote ''1'') state_a) = Some [note_a]
   \<and> stored_notes (exec 0 (DeleteNote ''1'') state_a)
       \<noteq> Some (notes (exec 0 (DeleteNote ''1'') state_a))"
  by (simp add: state_a_def deleteNote_def notes_effect_def note_a_def)

subsection \<open>Saving under an identifier that a note carries\<close>

text \<open>
  C2, evaluated where it fails. The update branch builds its record from the given data
  alone and never reads the stored note. Saving the identifier "1" with only a new title
  stores and returns a record without body, tags, folder and creation time, with word count
  0, in place of the stored note, whose body and creation time are lost.
\<close>

theorem saveNote_update_drops_fields:
  "note_a \<in> set (notes state_ab) \<and> note_id note_a = Some ''1''
   \<and> content note_a = Some ''Hello  big world'' \<and> createdAt note_a = Some 100
   \<and> fst (saveNote 300 300 (empty_partial\<lparr>note_id := Some ''1'', title := Some ''Renamed''\<rparr>)
          state_ab)
       = empty_partial\<lparr>note_id := Some ''1'', title := Some ''Renamed'',
                       updatedAt := Some 300, wordCount := Some 0\<rparr>
   \<and> notes (snd (saveNote 300 300
                    (empty_partial\<lparr>note_id := Some ''1'', title := Some ''Renamed''\<rparr>) state_ab))
       = [note_b, empty_partial\<lparr>note_id := Some ''1'', title := Some ''Renamed'',
                                updatedAt := Some 300, wordCount := Some 0\<rparr>]
   \<and> content (empty_partial\<lparr>note_id := Some ''1'', title := Some ''Renamed'',
                              updatedAt := Some 300, wordCount := Some 0\<rparr>) = None
   \<and> createdAt (empty_partial\<lparr>note_id := Some ''1'', title := Some ''Renamed'',
                                updatedAt := Some 300, wordCount := Some 0\<rparr>) = None"
  by (simp add: saveNote_def Let_def truthy_def or_else_def state_ab_def note_a_def note_b_def
      empty_partial_def countWords_Nil)

subsection \<open>Timestamps\<close>

text \<open>
  C3, as the code has it. Along any sequence of calls in which every saveNote under an
  identifier that a note of the collection carries at that moment supplies a creation time
  no later than its clock reading, every note of the collection keeps both timestamps with
  the creation time no later than the update time. A
  created note has both timestamps equal to the clock reading. Saving under an identifier at
  a clock reading no earlier than a note's stored update time does not decrease that note's
  update time.
\<close>

theorem timestamps_ordered:
  "(list_all ordered (notes s) \<and> well_timed_run t0 cs s \<longrightarrow>
      list_all ordered (notes (run t0 cs s)))
   \<and> (\<not> truthy (note_id noteData) \<longrightarrow>
        createdAt (fst (saveNote now dateNow noteData s)) = Some now
        \<and> updatedAt (fst (saveNote now dateNow noteData s)) = Some now)
   \<and> (truthy (note_id noteData) \<longrightarrow>
        (\<forall>i<length (notes s). \<forall>u. updatedAt (notes s ! i) = Some u \<and> u \<le> now \<longrightarrow>
           (\<exists>u'. updatedAt (notes (snd (saveNote now dateNow noteData s)) ! i) = Some u'
                 \<and> u \<le> u')))"
  using run_ordered [of s t0 cs] resave_updatedAt [of noteData _ s _ now dateNow]
  by (simp add: saveNote_create)

theorem timestamps_ordered_witness:
  "notes state_ab = [note_b, note_a] \<and> ordered note_b \<and> ordered note_a
   \<and> createdAt (editor_save\<lparr>note_id := Some ''99''\<rparr>) = None
   \<and> well_timed_run 0
        [SaveNote 300 300 (editor_save\<lparr>note_id := Some ''99''\<rparr>), SaveNote 300 300 note_a,
         DeleteFolder ''work''] state_ab
   \<and> list_all ordered
        (notes (run 0
           [SaveNote 300 300 (editor_save\<lparr>note_id := Some ''99''\<rparr>), SaveNote 300 300 note_a,
            DeleteFolder ''work''] state_ab))
   \<and> truthy (note_id note_a) \<and> updatedAt (notes state_ab ! 1) = Some 100
   \<and> (\<exists>u'. updatedAt (notes (snd (saveNote 300 300 note_a state_ab)) ! 1) = Some u'
             \<and> 100 \<le> u')"
proof -
  let ?cs = "[SaveNote 300 300 (editor_save\<lparr>note_id := Some ''99''\<rparr>), SaveNote 300 300 note_a,
              DeleteFolder ''work'']"
  have n: "notes state_ab = [note_b, note_a]"
    by (simp add: state_ab_def)
  have o: "ordered note_b \<and> ordered note_a"
    by (simp add: ordered_def note_a_def note_b_def)
  have c: "createdAt (editor_save\<lparr>note_id := Some ''99''\<rparr>) = None"
    by (simp add: editor_save_def)
  have t: "truthy (note_id note_a)"
    by (simp add: truthy_def note_a_def)
  have e: "exec 0 (SaveNote 300 300 (editor_save\<lparr>note_id := Some ''99''\<rparr>)) state_ab = state_ab"
    by (simp add: saveNote_def Let_def truthy_def notes_effect_def state_ab_def note_a_def
        note_b_def editor_save_def)
  have w: "well_timed_run 0 ?cs state_ab"
    by (simp add: e n truthy_def note_a_def note_b_def editor_save_def)
  have u: "updatedAt (notes state_ab ! 1) = Some 100"
    by (simp add: n note_a_def)
  from n o have l: "list_all ordered (notes state_ab)"
    by simp
  from timestamps_ordered [of state_ab 0 ?cs note_a 300 300] l w
  have r: "list_all ordered (notes (run 0 ?cs state_ab))"
    by blast
  from timestamps_ordered [of state_ab 0 ?cs note_a 300 300] t n u
  have x: "\<exists>u'. updatedAt (notes (snd (saveNote 300 300 note_a state_ab)) ! 1) = Some u'
      \<and> 100 \<le> u'"
    by simp
  from n o c w r t u x show ?thesis
    by blast
qed

text \<open>
  C3 as stated fails. A save that supplies no creation time (the editor's) leaves the stored
  note without one; and a save whose clock reading is earlier than the stored update time
  decreases the update time, below the creation time the caller passed back.
\<close>

theorem timestamps_not_ordered:
  "list_all ordered (notes state_ab)
   \<and> createdAt (notes (exec 0 (SaveNote 300 300 editor_save) state_ab) ! 1) = None
   \<and> \<not> list_all ordered (notes (exec 0 (SaveNote 300 300 editor_save) state_ab))
   \<and> updatedAt (notes state_ab ! 1) = Some 100
   \<and> updatedAt (notes (exec 0 (SaveNote 50 50 note_a) state_ab) ! 1) = Some 50
   \<and> \<not> list_all ordered (notes (exec 0 (SaveNote 50 50 note_a) state_ab))"
  by (simp add: saveNote_def Let_def truthy_def notes_effect_fields state_ab_def note_a_def
      note_b_def editor_save_def ordered_def)

end
